theory Spec2Isabelle
  imports Main "HOL-Library.Word"
begin

section \<open>JavaScript strings\<close>

text \<open>
  A JavaScript string is a sequence of UTF-16 code units, and \<open>length\<close> counts code
  units. String literals of the development are written as HOL strings and embedded
  with \<open>js\<close>.
\<close>

type_synonym code_unit = "16 word"
type_synonym jsstring = "code_unit list"

definition js :: "string \<Rightarrow> jsstring" where
  "js s = map of_char s"

abbreviation LF :: code_unit where "LF \<equiv> 0x0A"
abbreviation SP :: code_unit where "SP \<equiv> 0x20"
abbreviation LPAREN :: code_unit where "LPAREN \<equiv> 0x28"
abbreviation RPAREN :: code_unit where "RPAREN \<equiv> 0x29"

text \<open>
  The class \<open>\s\<close> of a regular expression without the unicode flag, which is also the
  set of code units that \<open>String.prototype.trim\<close> strips: TAB, LF, VT, FF, CR, SPACE,
  NBSP, U+1680, U+2000 to U+200A, LS, PS, U+202F, U+205F, U+3000 and U+FEFF.
\<close>

definition is_space :: "code_unit \<Rightarrow> bool" where
  "is_space c \<longleftrightarrow>
     c \<in> {0x09, 0x0A, 0x0B, 0x0C, 0x0D, 0x20, 0xA0, 0x1680, 0x2028, 0x2029, 0x202F,
          0x205F, 0x3000, 0xFEFF}
     \<or> (0x2000 \<le> c \<and> c \<le> 0x200A)"

section \<open>The text-cleaning pass of browser-content.js\<close>

text \<open>
  \<^verbatim>\<open>text.replace(/\(\s*\)/g, '')\<close>: scanning from the left, an opening parenthesis
  followed by a (greedy) run of whitespace and a closing parenthesis is deleted and the
  scan goes on behind the match; any other code unit is copied. When the run of
  whitespace is not followed by a closing parenthesis no shorter run is either, so
  backtracking finds no match at that position.
\<close>

function strip_empty_parens :: "jsstring \<Rightarrow> jsstring" where
  "strip_empty_parens [] = []"
| "strip_empty_parens (c # cs) =
     (if c = LPAREN then
        (case dropWhile is_space cs of
           [] \<Rightarrow> c # strip_empty_parens cs
         | d # ds \<Rightarrow> if d = RPAREN then strip_empty_parens ds
                    else c # strip_empty_parens cs)
      else c # strip_empty_parens cs)"
  by pat_completeness auto
termination
proof (relation "measure length")
  fix c :: code_unit and cs d ds
  assume "dropWhile is_space cs = d # ds"
  then have "length (d # ds) \<le> length cs"
    by (metis length_dropWhile_le)
  then show "(ds, c # cs) \<in> measure length" by simp
qed auto

text \<open>
  \<^verbatim>\<open>.replace(/\s+/g, ' ')\<close>: every maximal run of whitespace becomes one space.
\<close>

function collapse_whitespace :: "jsstring \<Rightarrow> jsstring" where
  "collapse_whitespace [] = []"
| "collapse_whitespace (c # cs) =
     (if is_space c then SP # collapse_whitespace (dropWhile is_space cs)
      else c # collapse_whitespace cs)"
  by pat_completeness auto
termination
  by (relation "measure length") (auto simp: length_dropWhile_le less_Suc_eq_le)

text \<open>
  \<^verbatim>\<open>.replace(/\n\s*\n\s*\n/g, '\n\n')\<close>: a match starts at a line feed whose following
  whitespace run holds at least two more line feeds. Both \<open>\s*\<close> are greedy, so the
  match ends at the last line feed of that run; the scan goes on behind it.
\<close>

definition after_last_newline :: "jsstring \<Rightarrow> jsstring" where
  "after_last_newline run = rev (takeWhile (\<lambda>c. c \<noteq> LF) (rev run))"

function collapse_newlines :: "jsstring \<Rightarrow> jsstring" where
  "collapse_newlines [] = []"
| "collapse_newlines (c # cs) =
     (if c = LF \<and> 2 \<le> length (filter (\<lambda>x. x = LF) (takeWhile is_space cs)) then
        LF # LF # collapse_newlines
          (after_last_newline (takeWhile is_space cs) @ dropWhile is_space cs)
      else c # collapse_newlines cs)"
  by pat_completeness auto
termination
proof (relation "measure length")
  fix c :: code_unit and cs
  have "length (after_last_newline (takeWhile is_space cs)) \<le> length (takeWhile is_space cs)"
    unfolding after_last_newline_def
    by (metis length_rev length_takeWhile_le)
  moreover have "length (takeWhile is_space cs) + length (dropWhile is_space cs) = length cs"
    by (metis length_append takeWhile_dropWhile_id)
  ultimately show
    "(after_last_newline (takeWhile is_space cs) @ dropWhile is_space cs, c # cs)
       \<in> measure length"
    by simp
qed auto

text \<open>\<^verbatim>\<open>.trim()\<close>: whitespace is stripped from both ends.\<close>

definition trim :: "jsstring \<Rightarrow> jsstring" where
  "trim s = rev (dropWhile is_space (rev (dropWhile is_space s)))"

definition cleanText :: "jsstring \<Rightarrow> jsstring" where
  "cleanText text =
     trim (collapse_newlines (collapse_whitespace (strip_empty_parens text)))"

text \<open>
  Two predicates on strings used to state what the cleaning pass achieves.
  \<open>has_empty_parens\<close> holds when \<^verbatim>\<open>/\(\s*\)/\<close> has a match somewhere in the string;
  \<open>tidy\<close> holds when every whitespace code unit is a single space that is not followed by
  whitespace.
\<close>

fun has_empty_parens :: "jsstring \<Rightarrow> bool" where
  "has_empty_parens [] = False"
| "has_empty_parens (c # cs) =
     ((c = LPAREN \<and> (case dropWhile is_space cs of [] \<Rightarrow> False | d # ds \<Rightarrow> d = RPAREN))
      \<or> has_empty_parens cs)"

fun tidy :: "jsstring \<Rightarrow> bool" where
  "tidy [] = True"
| "tidy (c # cs) =
     ((if is_space c then c = SP \<and> (case cs of [] \<Rightarrow> True | d # ds \<Rightarrow> \<not> is_space d)
       else True)
      \<and> tidy cs)"

section \<open>The document tree\<close>

text \<open>
  The part of the DOM that \<open>fallbackExtraction\<close> reads: element nodes with their local
  name, \<open>id\<close>, class list and \<open>role\<close> attribute, and text nodes. A document has the
  value of its \<open>title\<close> getter and its child nodes.
\<close>

record attrs =
  localName :: jsstring
  ident :: "jsstring option"
  classList :: "jsstring list"
  role :: "jsstring option"

datatype node = Element attrs "node list" | TextNode jsstring

record document =
  doc_title :: jsstring
  doc_children :: "node list"

text \<open>The simple selectors of the script: a type, a class, an id and \<open>[role="..."]\<close>.\<close>

type_synonym selector = "attrs \<Rightarrow> bool"

definition by_tag :: "string \<Rightarrow> selector" where
  "by_tag t a \<longleftrightarrow> localName a = js t"

definition by_class :: "string \<Rightarrow> selector" where
  "by_class c a \<longleftrightarrow> js c \<in> set (classList a)"

definition by_id :: "string \<Rightarrow> selector" where
  "by_id i a \<longleftrightarrow> ident a = Some (js i)"

definition by_role :: "string \<Rightarrow> selector" where
  "by_role r a \<longleftrightarrow> role a = Some (js r)"

fun matches :: "selector \<Rightarrow> node \<Rightarrow> bool" where
  "matches P (Element a cs) = P a"
| "matches P (TextNode t) = False"

text \<open>
  \<^verbatim>\<open>'script, style, nav, header, footer, aside, .navigation, .menu, .sidebar'\<close>
\<close>

definition unwanted :: selector where
  "unwanted a \<longleftrightarrow>
     by_tag ''script'' a \<or> by_tag ''style'' a \<or> by_tag ''nav'' a \<or> by_tag ''header'' a \<or>
     by_tag ''footer'' a \<or> by_tag ''aside'' a \<or> by_class ''navigation'' a \<or>
     by_class ''menu'' a \<or> by_class ''sidebar'' a"

text \<open>
  \<^verbatim>\<open>doc.querySelectorAll(sel).forEach(el => el.remove())\<close>: the list of matches is
  static and every match is detached from its parent, so the document keeps exactly the
  nodes that have no matching ancestor and do not match themselves.
\<close>

fun remove_from :: "selector \<Rightarrow> node \<Rightarrow> node" where
  "remove_from P (Element a cs) =
     Element a (map (remove_from P) (filter (\<lambda>n. \<not> matches P n) cs))"
| "remove_from P (TextNode t) = TextNode t"

definition remove_all :: "selector \<Rightarrow> node list \<Rightarrow> node list" where
  "remove_all P ns = map (remove_from P) (filter (\<lambda>n. \<not> matches P n) ns)"

text \<open>\<^verbatim>\<open>doc.querySelector(sel)\<close>: the first matching element in tree order, or null.\<close>

fun querySelector :: "selector \<Rightarrow> node list \<Rightarrow> node option" where
  "querySelector P [] = None"
| "querySelector P (TextNode t # ns) = querySelector P ns"
| "querySelector P (Element a cs # ns) =
     (if P a then Some (Element a cs)
      else (case querySelector P cs of Some e \<Rightarrow> Some e | None \<Rightarrow> querySelector P ns))"

text \<open>
  \<^verbatim>\<open>doc.body\<close>: the first \<open>body\<close> or \<open>frameset\<close> child of the document element, when the
  document element is an \<open>html\<close> element; null otherwise.
\<close>

definition body :: "node list \<Rightarrow> node option" where
  "body ns =
     (case find (matches (\<lambda>a. True)) ns of
        Some (Element a cs) \<Rightarrow>
          if localName a = js ''html''
          then find (matches (\<lambda>b. by_tag ''body'' b \<or> by_tag ''frameset'' b)) cs
          else None
      | _ \<Rightarrow> None)"

text \<open>\<^verbatim>\<open>node.textContent\<close>: the data of the text descendants, in tree order.\<close>

fun textContent :: "node \<Rightarrow> jsstring" where
  "textContent (TextNode t) = t"
| "textContent (Element a cs) = concat (map textContent cs)"

text \<open>The elements of a subtree and of a document, in tree order.\<close>

fun elements_of :: "node \<Rightarrow> node list" where
  "elements_of (TextNode t) = []"
| "elements_of (Element a cs) = Element a cs # concat (map elements_of cs)"

definition elements :: "node list \<Rightarrow> node list" where
  "elements ns = concat (map elements_of ns)"

section \<open>Fallback extraction and the extraction call\<close>

text \<open>
  The script calls three libraries: the JSDOM parser, Readability and Turndown. They are
  parameters of the model. \<open>jsdom html url\<close> is the document parsed from \<open>html\<close> at base
  \<open>url\<close>; \<open>readability\<close> returns the article (or null) together with the document as its
  in-place pass leaves it; \<open>turndown\<close> is the converter as the script configures it (ATX
  headings, fenced code blocks, GFM plugin).
\<close>

type_synonym jsdom = "jsstring \<Rightarrow> jsstring \<Rightarrow> document"

record article =
  article_title :: jsstring
  article_content :: jsstring

type_synonym readability = "document \<Rightarrow> article option \<times> document"
type_synonym turndown = "jsstring \<Rightarrow> jsstring"

text \<open>JavaScript's \<open>||\<close> on object references: the left operand unless it is null.\<close>

fun or_else :: "'a option \<Rightarrow> 'a option \<Rightarrow> 'a option" where
  "or_else (Some x) y = Some x"
| "or_else None y = y"

definition main_content :: "node list \<Rightarrow> node option" where
  "main_content doc =
     or_else (querySelector (by_tag ''main'') doc)
    (or_else (querySelector (by_tag ''article'') doc)
    (or_else (querySelector (by_role ''main'') doc)
    (or_else (querySelector (by_class ''content'') doc)
    (or_else (querySelector (by_id ''content'') doc)
             (body doc)))))"

definition fallbackExtraction :: "jsdom \<Rightarrow> jsstring \<Rightarrow> jsstring \<Rightarrow> jsstring" where
  "fallbackExtraction parse html url =
     (let doc = remove_all unwanted (doc_children (parse html url));
          mainContent = main_content doc;
          text = (case mainContent of Some e \<Rightarrow> textContent e | None \<Rightarrow> [])
      in cleanText text)"

definition MIN_CONTENT_LENGTH :: nat where
  "MIN_CONTENT_LENGTH = 100"

record extraction =
  finalUrl :: jsstring
  title :: jsstring
  content :: jsstring

text \<open>
  The only error the function raises itself:
  \<^verbatim>\<open>Insufficient content extracted (${content.length} chars, minimum ${MIN_CONTENT_LENGTH})\<close>,
  with the measured length and the minimum.
\<close>

datatype error = InsufficientContent nat nat

text \<open>
  \<open>extractContent\<close> from the point where \<open>finalUrl\<close> and \<open>html\<close> have been read from the
  page. A non-empty string is truthy, so \<^verbatim>\<open>document.title || 'Untitled'\<close> is the title
  unless it is empty.
\<close>

definition extractContent ::
  "jsdom \<Rightarrow> readability \<Rightarrow> turndown \<Rightarrow> jsstring \<Rightarrow> jsstring \<Rightarrow> error + extraction" where
  "extractContent parse reader convert url html =
     (let dom = parse html url;
          (article, dom') = reader dom;
          (t, c) = (case article of
                      Some a \<Rightarrow> (article_title a, cleanText (convert (article_content a)))
                    | None \<Rightarrow> (if doc_title dom' \<noteq> [] then doc_title dom' else js ''Untitled'',
                               fallbackExtraction parse html url))
      in if length c < MIN_CONTENT_LENGTH
         then Inl (InsufficientContent (length c) MIN_CONTENT_LENGTH)
         else Inr \<lparr>finalUrl = url, title = t, content = c\<rparr>)"

text \<open>
  The order of section 4.1 of the specification, in its words: a \<open>main\<close> element, then
  \<open>article\<close>, then an element with the main-content role, then an element with the
  conventional content class or id, then the document body.
\<close>

fun first_present :: "selector list \<Rightarrow> node list \<Rightarrow> node option" where
  "first_present [] doc = None"
| "first_present (P # Ps) doc =
     (case find (matches P) (elements doc) of
        Some e \<Rightarrow> Some e
      | None \<Rightarrow> first_present Ps doc)"

definition spec_root :: "node list \<Rightarrow> node option" where
  "spec_root doc =
     (case first_present [by_tag ''main'', by_tag ''article'', by_role ''main'',
                          by_class ''content'', by_id ''content''] doc of
        Some e \<Rightarrow> Some e
      | None \<Rightarrow> body doc)"

section \<open>Text outside removed elements\<close>

text \<open>
  The specification speaks of the text of removed elements. These definitions describe
  it on the document as parsed, without removing anything: every text node and every
  element is listed in tree order together with the elements it lies in (innermost
  first; for an element the list begins with the element itself). A node is outside
  the removed elements when none of these matches the selector.
\<close>

fun text_nodes :: "attrs list \<Rightarrow> node \<Rightarrow> (attrs list \<times> jsstring) list" where
  "text_nodes anc (TextNode t) = [(anc, t)]"
| "text_nodes anc (Element a cs) = concat (map (text_nodes (a # anc)) cs)"

definition outside_text :: "selector \<Rightarrow> node \<Rightarrow> jsstring" where
  "outside_text P n =
     concat (map snd (filter (\<lambda>(anc, t). \<not> list_ex P anc) (text_nodes [] n)))"

fun located_elements :: "attrs list \<Rightarrow> node \<Rightarrow> (attrs list \<times> node) list" where
  "located_elements anc (TextNode t) = []"
| "located_elements anc (Element a cs) =
     (a # anc, Element a cs) # concat (map (located_elements (a # anc)) cs)"

definition outside_elements :: "selector \<Rightarrow> node list \<Rightarrow> node list" where
  "outside_elements P ns =
     map snd (filter (\<lambda>(anc, e). \<not> list_ex P anc) (concat (map (located_elements []) ns)))"


section \<open>Example pages\<close>

definition filler :: jsstring where
  "filler = replicate 150 0x78"

definition el :: "string \<Rightarrow> node list \<Rightarrow> node" where
  "el t cs = Element \<lparr>localName = js t, ident = None, classList = [], role = None\<rparr> cs"

text \<open>
  \<^verbatim>\<open><html><head><title>T</title></head><body><nav>Home</nav>\<close>
  \<^verbatim>\<open><main>x...x<script>var a</script></main></body></html>\<close> with 150 \<open>x\<close>.
\<close>

definition page_main :: document where
  "page_main = \<lparr>doc_title = js ''T'', doc_children =
     [el ''html'' [el ''head'' [el ''title'' [TextNode (js ''T'')]],
                  el ''body'' [el ''nav'' [TextNode (js ''Home'')],
                              el ''main'' [TextNode filler,
                                          el ''script'' [TextNode (js ''var a'')]]]]]\<rparr>"

text \<open>\<^verbatim>\<open><html><head></head><body>Hi</body></html>\<close>\<close>

definition page_hi :: document where
  "page_hi = \<lparr>doc_title = [], doc_children =
     [el ''html'' [el ''head'' [], el ''body'' [TextNode (js ''Hi'')]]]\<rparr>"

text \<open>
  \<^verbatim>\<open><div id="content">by id</div><div class="content">by class</div>\<close> in a body.
\<close>

definition page_content_divs :: document where
  "page_content_divs = \<lparr>doc_title = [], doc_children =
     [el ''html'' [el ''body''
        [Element \<lparr>localName = js ''div'', ident = Some (js ''content''), classList = [],
                  role = None\<rparr> [TextNode (js ''by id'')],
         Element \<lparr>localName = js ''div'', ident = None, classList = [js ''content''],
                  role = None\<rparr> [TextNode (js ''by class'')]]]]\<rparr>"

text \<open>\<^verbatim>\<open><html><head></head><body><p>x...x</p></body></html>\<close>: no \<open>title\<close> element.\<close>

definition page_untitled :: document where
  "page_untitled = \<lparr>doc_title = [], doc_children =
     [el ''html'' [el ''head'' [], el ''body'' [el ''p'' [TextNode filler]]]]\<rparr>"

definition page_empty :: document where
  "page_empty = \<lparr>doc_title = [], doc_children = []\<rparr>"

text \<open>
  The Markdown of an article with a paragraph, an \<open>h2\<close> heading and a \<open>pre\<close>/\<open>code\<close>
  block, in the style the converter is configured for: an ATX heading line and a fenced
  block, separated by blank lines.
\<close>

definition markdown_example :: jsstring where
  "markdown_example = js ''Intro paragraph of the article, long enough to pass the length gate of one hundred characters.\<newline>\<newline>## Section\<newline>\<newline>```\<newline>code\<newline>```''"

text \<open>
  Pages whose visible text is the label of a \<open>button\<close>. The reader discards buttons
  (as it does \<open>aside\<close> and \<open>script\<close>) before it measures the text it has found, so
  it finds no article on them; fallback extraction keeps buttons.
\<close>

definition html_buttons :: jsstring where
  "html_buttons = js ''<html><head></head><body><main><button>Hi</button></main><article><button>'' @ filler @ js ''</button></article></body></html>''"

definition page_buttons :: document where
  "page_buttons = \<lparr>doc_title = [], doc_children =
     [el ''html'' [el ''head'' [],
                  el ''body'' [el ''main'' [el ''button'' [TextNode (js ''Hi'')]],
                              el ''article'' [el ''button'' [TextNode filler]]]]]\<rparr>"

definition related_text :: jsstring where
  "related_text = js ''Related'' @ filler"

definition html_related :: jsstring where
  "html_related = js ''<html><head><title>T</title></head><body><aside>Related</aside><main><button>'' @ related_text @ js ''</button><script>var a</script></main></body></html>''"

definition page_related :: document where
  "page_related = \<lparr>doc_title = js ''T'', doc_children =
     [el ''html'' [el ''head'' [el ''title'' [TextNode (js ''T'')]],
                  el ''body'' [el ''aside'' [TextNode (js ''Related'')],
                              el ''main'' [el ''button'' [TextNode related_text],
                                          el ''script'' [TextNode (js ''var a'')]]]]]\<rparr>"

text \<open>A page with an article of one paragraph and no \<open>title\<close> element.\<close>

definition html_untitled_article :: jsstring where
  "html_untitled_article = js ''<html><head></head><body><article><p>'' @ filler @ js ''</p></article></body></html>''"

definition page_untitled_article :: document where
  "page_untitled_article = \<lparr>doc_title = [], doc_children =
     [el ''html'' [el ''head'' [],
                  el ''body'' [el ''article'' [el ''p'' [TextNode filler]]]]]\<rparr>"

text \<open>A reader that finds no article and leaves the document as it is.\<close>

definition no_article :: readability where
  "no_article d = (None, d)"

section \<open>Properties of the cleaning pass\<close>

subsection \<open>The single stages\<close>

lemma is_space_LF: "is_space LF"
  by (simp add: is_space_def)

lemma is_space_SP: "is_space SP"
  by (simp add: is_space_def)

lemma length_strip_empty_parens: "length (strip_empty_parens s) \<le> length s"
proof (induction s rule: strip_empty_parens.induct)
  case 1 show ?case by simp
next
  case (2 c cs)
  have d: "length (dropWhile is_space cs) \<le> length cs" by (rule length_dropWhile_le)
  show ?case using 2 d by (auto split: list.splits)
qed

lemma strip_match:
  "dropWhile is_space cs = RPAREN # ds \<Longrightarrow> strip_empty_parens (LPAREN # cs) = strip_empty_parens ds"
  by simp

lemma strip_step:
  "\<not> (c = LPAREN \<and> (\<exists>ds. dropWhile is_space cs = RPAREN # ds)) \<Longrightarrow>
   strip_empty_parens (c # cs) = c # strip_empty_parens cs"
  by (cases "dropWhile is_space cs") (simp_all del: dropWhile_eq_Nil_conv)

lemma has_empty_parens_Cons:
  "has_empty_parens (c # cs) \<longleftrightarrow>
     (c = LPAREN \<and> (\<exists>ds. dropWhile is_space cs = RPAREN # ds)) \<or> has_empty_parens cs"
  by (cases "dropWhile is_space cs") (simp_all del: dropWhile_eq_Nil_conv)

lemma strip_shrinks: "has_empty_parens s \<Longrightarrow> length (strip_empty_parens s) < length s"
proof (induction s)
  case Nil then show ?case by simp
next
  case (Cons c cs)
  show ?case
  proof (cases "c = LPAREN \<and> (\<exists>ds. dropWhile is_space cs = RPAREN # ds)")
    case True
    then obtain ds where ds: "dropWhile is_space cs = RPAREN # ds" and c: "c = LPAREN" by blast
    have "length (RPAREN # ds) \<le> length cs" using length_dropWhile_le[of is_space cs] ds by simp
    moreover have "length (strip_empty_parens ds) \<le> length ds" by (rule length_strip_empty_parens)
    ultimately show ?thesis using strip_match[OF ds] c by simp
  next
    case False
    with Cons.prems have "has_empty_parens cs" by (simp only: has_empty_parens_Cons) blast
    then have "length (strip_empty_parens cs) < length cs" by (rule Cons.IH)
    then show ?thesis using strip_step[OF False] by simp
  qed
qed

lemma strip_id: "\<not> has_empty_parens s \<Longrightarrow> strip_empty_parens s = s"
proof (induction s)
  case Nil show ?case by simp
next
  case (Cons c cs)
  from Cons.prems have nm: "\<not> (c = LPAREN \<and> (\<exists>ds. dropWhile is_space cs = RPAREN # ds))"
    and h: "\<not> has_empty_parens cs" by (simp_all only: has_empty_parens_Cons) blast+
  from h have "strip_empty_parens cs = cs" by (rule Cons.IH)
  then show ?case using strip_step[OF nm] by simp
qed

lemma length_collapse_whitespace: "length (collapse_whitespace s) \<le> length s"
proof (induction s rule: collapse_whitespace.induct)
  case 1 show ?case by simp
next
  case (2 c cs)
  have d: "length (dropWhile is_space cs) \<le> length cs" by (rule length_dropWhile_le)
  show ?case using 2 d by auto
qed

lemma tidy_collapse_whitespace: "tidy (collapse_whitespace s)"
proof (induction s rule: collapse_whitespace.induct)
  case 1 show ?case by simp
next
  case (2 c cs)
  show ?case
  proof (cases "is_space c")
    case False with 2 show ?thesis by simp
  next
    case True
    have "case collapse_whitespace (dropWhile is_space cs) of [] \<Rightarrow> True | d # ds \<Rightarrow> \<not> is_space d"
    proof (cases "dropWhile is_space cs")
      case Nil
      then have "collapse_whitespace (dropWhile is_space cs) = collapse_whitespace []"
        by (simp only:)
      then show ?thesis by simp
    next
      case (Cons d ds)
      then have "\<not> is_space d" by (metis hd_dropWhile list.sel(1) list.distinct(1))
      with Cons show ?thesis by simp
    qed
    with True 2 show ?thesis by (simp add: is_space_SP)
  qed
qed

lemma collapse_whitespace_tidy: "tidy s \<Longrightarrow> collapse_whitespace s = s"
proof (induction s rule: collapse_whitespace.induct)
  case 1 show ?case by simp
next
  case (2 c cs)
  show ?case
  proof (cases "is_space c")
    case False with 2 show ?thesis by simp
  next
    case True
    with "2.prems" have c: "c = SP" and nx: "case cs of [] \<Rightarrow> True | d # ds \<Rightarrow> \<not> is_space d"
      and t: "tidy cs" by simp_all
    from nx have dw: "dropWhile is_space cs = cs" by (cases cs) simp_all
    with "2.IH"(1) True t have "collapse_whitespace (dropWhile is_space cs) = cs" by simp
    with True c show ?thesis by simp
  qed
qed

lemma tidy_no_other_space: "tidy s \<Longrightarrow> c \<in> set s \<Longrightarrow> is_space c \<Longrightarrow> c = SP"
  by (induction s) (auto split: if_splits)

lemma tidy_append: "tidy (xs @ ys) \<Longrightarrow> tidy xs \<and> tidy ys"
proof (induction xs)
  case Nil then show ?case by simp
next
  case (Cons x xs)
  then show ?case by (cases xs) (auto split: if_splits list.splits)
qed

lemma trim_decomp: "\<exists>a b. s = a @ trim s @ b"
proof -
  let ?u = "dropWhile is_space s"
  have 1: "s = takeWhile is_space s @ ?u" by simp
  have "trim s @ rev (takeWhile is_space (rev ?u))
          = rev (takeWhile is_space (rev ?u) @ dropWhile is_space (rev ?u))"
    by (simp only: trim_def rev_append)
  also have "\<dots> = ?u" by (simp only: takeWhile_dropWhile_id rev_rev_ident)
  finally have 2: "?u = trim s @ rev (takeWhile is_space (rev ?u))" by simp
  from 1 2 show ?thesis by metis
qed

lemma tidy_trim: "tidy s \<Longrightarrow> tidy (trim s)"
proof -
  assume t: "tidy s"
  obtain a b where "s = a @ trim s @ b" using trim_decomp by blast
  with t have "tidy (a @ trim s @ b)" by simp
  then show ?thesis using tidy_append by blast
qed

lemma length_trim: "length (trim s) \<le> length s"
proof -
  obtain a b where "s = a @ trim s @ b" using trim_decomp by blast
  then have "length s = length a + length (trim s) + length b" by (metis length_append add.assoc)
  then show ?thesis by simp
qed

lemma collapse_newlines_no_LF: "LF \<notin> set s \<Longrightarrow> collapse_newlines s = s"
  by (induction s) auto

lemma trim_ends: "trim s \<noteq> [] \<Longrightarrow> \<not> is_space (hd (trim s)) \<and> \<not> is_space (last (trim s))"
proof -
  assume ne: "trim s \<noteq> []"
  let ?u = "dropWhile is_space s"
  let ?v = "dropWhile is_space (rev ?u)"
  from ne have v: "?v \<noteq> []" by (simp add: trim_def)
  have u: "?u \<noteq> []"
  proof
    assume "?u = []"
    then have "?v = dropWhile is_space (rev [])" by (simp only:)
    with v show False by simp
  qed
  have l: "last (trim s) = hd ?v" using v by (simp add: trim_def last_rev)
  have "\<not> is_space (hd ?v)" using v by (rule hd_dropWhile)
  with l have A: "\<not> is_space (last (trim s))" by simp
  have "hd (trim s) = last ?v" using v by (simp add: trim_def hd_rev)
  also have "\<dots> = last (rev ?u)"
  proof -
    have "rev ?u = takeWhile is_space (rev ?u) @ ?v" by simp
    then show ?thesis using v by (metis last_appendR)
  qed
  also have "\<dots> = hd ?u" using u by (simp add: last_rev)
  finally have "hd (trim s) = hd ?u" .
  moreover have "\<not> is_space (hd ?u)" using u by (rule hd_dropWhile)
  ultimately show ?thesis using A by simp
qed

lemma trim_id: "s = [] \<or> (\<not> is_space (hd s) \<and> \<not> is_space (last s)) \<Longrightarrow> trim s = s"
proof (cases s)
  case Nil then show ?thesis by (simp add: trim_def)
next
  case (Cons x xs)
  assume "s = [] \<or> (\<not> is_space (hd s) \<and> \<not> is_space (last s))"
  with Cons have h: "\<not> is_space x" and l: "\<not> is_space (last s)" by simp_all
  from h Cons have 1: "dropWhile is_space s = s" by simp
  from Cons have "rev s \<noteq> []" by simp
  moreover from l have "\<not> is_space (hd (rev s))" by (simp add: hd_rev)
  ultimately have "dropWhile is_space (rev s) = rev s" by (cases "rev s") simp_all
  with 1 show ?thesis by (simp add: trim_def)
qed

lemma tidy_cleanText: "tidy (cleanText s)"
proof -
  let ?w = "collapse_whitespace (strip_empty_parens s)"
  have t: "tidy ?w" by (rule tidy_collapse_whitespace)
  then have "LF \<notin> set ?w" using tidy_no_other_space[OF t, of LF] by (auto simp: is_space_LF)
  then have "collapse_newlines ?w = ?w" by (rule collapse_newlines_no_LF)
  with t show ?thesis by (simp add: cleanText_def tidy_trim)
qed

lemma cleanText_ends:
  "cleanText s \<noteq> [] \<Longrightarrow> \<not> is_space (hd (cleanText s)) \<and> \<not> is_space (last (cleanText s))"
  unfolding cleanText_def by (rule trim_ends)

lemma cleanText_fixed:
  assumes t: "tidy t" and e: "t = [] \<or> (\<not> is_space (hd t) \<and> \<not> is_space (last t))"
    and p: "\<not> has_empty_parens t"
  shows "cleanText t = t"
proof -
  have 1: "strip_empty_parens t = t" using p by (rule strip_id)
  have 2: "collapse_whitespace t = t" using t by (rule collapse_whitespace_tidy)
  have "LF \<notin> set t" using tidy_no_other_space[OF t, of LF] by (auto simp: is_space_LF)
  then have 3: "collapse_newlines t = t" by (rule collapse_newlines_no_LF)
  have 4: "trim t = t" using e by (rule trim_id)
  show ?thesis by (simp add: cleanText_def 1 2 3 4)
qed

lemma cleanText_shrinks:
  assumes t: "tidy t" and p: "has_empty_parens t"
  shows "length (cleanText t) < length t"
proof -
  let ?u = "strip_empty_parens t"
  let ?w = "collapse_whitespace ?u"
  have tw: "tidy ?w" by (rule tidy_collapse_whitespace)
  have "LF \<notin> set ?w" using tidy_no_other_space[OF tw, of LF] by (auto simp: is_space_LF)
  then have 3: "collapse_newlines ?w = ?w" by (rule collapse_newlines_no_LF)
  have "length (cleanText t) = length (trim ?w)" by (simp add: cleanText_def 3)
  also have "\<dots> \<le> length ?w" by (rule length_trim)
  also have "\<dots> \<le> length ?u" by (rule length_collapse_whitespace)
  also have "\<dots> < length t" using p by (rule strip_shrinks)
  finally show ?thesis .
qed


lemma cleanText_plain:
  assumes "\<forall>c \<in> set s. \<not> is_space c \<and> c \<noteq> LPAREN"
  shows "cleanText s = s"
proof -
  from assms have t: "tidy s" by (induction s) simp_all
  from assms have p: "\<not> has_empty_parens s" by (induction s) simp_all
  have e: "s = [] \<or> (\<not> is_space (hd s) \<and> \<not> is_space (last s))"
  proof (cases s)
    case Nil then show ?thesis by simp
  next
    case (Cons x xs)
    then have "hd s \<in> set s" and "last s \<in> set s" by simp_all
    with assms show ?thesis by blast
  qed
  show ?thesis using t e p by (rule cleanText_fixed)
qed

lemmas clean_eval = js_def is_space_def cleanText_def trim_def after_last_newline_def

subsection \<open>Whitespace collapsing\<close>

text \<open>
  Claim C2. The specification wants \<^verbatim>\<open>"a\n\n\n\nb"\<close> to clean to \<^verbatim>\<open>"a\n\nb"\<close> and
  \<^verbatim>\<open>"foo(  )bar"\<close> to clean to \<^verbatim>\<open>"foobar"\<close>. The second holds. The first does not: the
  whitespace pass runs before the newline pass and has already turned the four line
  feeds into one space, so the result is \<^verbatim>\<open>"a b"\<close>.
\<close>

theorem cleanText_paragraph_break_lost:
  "cleanText (js ''a\<newline>\<newline>\<newline>\<newline>b'') = js ''a b''
   \<and> cleanText (js ''a\<newline>\<newline>\<newline>\<newline>b'') \<noteq> js ''a\<newline>\<newline>b''
   \<and> cleanText (js ''foo(  )bar'') = js ''foobar''"
  by (simp add: clean_eval)

text \<open>
  The newline pass on its own does what the specification describes; it is the order of
  the passes that defeats it.
\<close>

lemma collapse_newlines_alone:
  "collapse_newlines (js ''a\<newline>\<newline>\<newline>\<newline>b'') = js ''a\<newline>\<newline>b''"
  by (simp add: clean_eval)

subsection \<open>Idempotence\<close>

text \<open>
  Claim C3, as stated: cleaning twice gives the same as cleaning once. It fails on
  nested empty parentheses, since one pass removes only the innermost pair.
\<close>

theorem cleanText_not_idempotent:
  "cleanText (cleanText (js ''(())'')) \<noteq> cleanText (js ''(())'')"
  by (simp add: clean_eval)

text \<open>
  Claim C3, amended: cleaning twice gives the same as cleaning once exactly when the
  once-cleaned text holds no empty parenthetical, that is no \<open>(\<close> followed by optional
  whitespace and \<open>)\<close>.
\<close>

theorem cleanText_idempotent_iff:
  "cleanText (cleanText s) = cleanText s \<longleftrightarrow> \<not> has_empty_parens (cleanText s)"
proof
  assume eq: "cleanText (cleanText s) = cleanText s"
  show "\<not> has_empty_parens (cleanText s)"
  proof
    assume "has_empty_parens (cleanText s)"
    then have "length (cleanText (cleanText s)) < length (cleanText s)"
      using tidy_cleanText cleanText_shrinks by blast
    with eq show False by simp
  qed
next
  assume "\<not> has_empty_parens (cleanText s)"
  then show "cleanText (cleanText s) = cleanText s"
    using cleanText_fixed[OF tidy_cleanText] cleanText_ends by blast
qed

theorem cleanText_idempotent_iff_witness:
  "\<not> has_empty_parens (cleanText (js ''f(x)  ( y'')) \<and>
   cleanText (cleanText (js ''f(x)  ( y'')) = cleanText (js ''f(x)  ( y'')"
proof -
  have "\<not> has_empty_parens (cleanText (js ''f(x)  ( y''))"
    by (simp add: clean_eval)
  then show ?thesis
    using cleanText_idempotent_iff [of "js ''f(x)  ( y''"] by blast
qed

subsection \<open>The cleaned text is one line\<close>

text \<open>
  Claim C4: for every input, the cleaned text holds no line feed (nor any whitespace
  other than the space, so no line terminator at all) and neither begins nor ends with
  whitespace. No paragraph break survives cleaning.
\<close>

theorem cleanText_single_line:
  "LF \<notin> set (cleanText s) \<and>
   (\<forall>c \<in> set (cleanText s). is_space c \<longrightarrow> c = SP) \<and>
   (cleanText s \<noteq> [] \<longrightarrow> \<not> is_space (hd (cleanText s)) \<and> \<not> is_space (last (cleanText s)))"
proof -
  have t: "tidy (cleanText s)" by (rule tidy_cleanText)
  have sp: "\<forall>c \<in> set (cleanText s). is_space c \<longrightarrow> c = SP"
    using tidy_no_other_space[OF t] by blast
  then have "LF \<notin> set (cleanText s)" using is_space_LF by fastforce
  with sp cleanText_ends show ?thesis by blast
qed

theorem cleanText_single_line_witness:
  "cleanText (js ''  one\<newline>\<newline>two \<newline>'') = js ''one two'' \<and>
   LF \<notin> set (js ''one two'') \<and>
   \<not> is_space (hd (js ''one two'')) \<and> \<not> is_space (last (js ''one two''))"
proof -
  have e: "cleanText (js ''  one\<newline>\<newline>two \<newline>'') = js ''one two''"
    by (simp add: clean_eval)
  have n: "js ''one two'' \<noteq> []" by (simp add: js_def)
  show ?thesis
    using cleanText_single_line [of "js ''  one\<newline>\<newline>two \<newline>''"] n
    unfolding e by blast
qed

section \<open>Properties of the document operations\<close>

lemma find_append_opt:
  "find P (xs @ ys) = (case find P xs of Some x \<Rightarrow> Some x | None \<Rightarrow> find P ys)"
  by (induction xs) auto

lemma querySelector_find: "querySelector P ns = find (matches P) (elements ns)"
  unfolding elements_def
  by (induction P ns rule: querySelector.induct) (auto simp: find_append_opt split: option.splits)

lemma concat_map_if:
  "concat (map (\<lambda>c. if Q c then [] else h c) cs) = concat (map h (filter (\<lambda>c. \<not> Q c) cs))"
  by (induction cs) simp_all

lemma concat_concat_map_each:
  "concat (concat (map h cs)) = concat (map (\<lambda>c. concat (h c)) cs)"
  by (induction cs) simp_all

lemma matches_any_remove_from: "matches Q (remove_from P n) = matches Q n"
  by (cases n) auto

lemma text_nodes_inside:
  "list_ex P anc \<Longrightarrow> filter (\<lambda>(c, t). \<not> list_ex P c) (text_nodes anc n) = []"
proof (induction n arbitrary: anc)
  case (Element a cs)
  then show ?case by (simp add: filter_concat comp_def)
next
  case (TextNode t) then show ?case by simp
qed

lemma text_nodes_outside:
  "\<not> list_ex P anc \<Longrightarrow>
   concat (map snd (filter (\<lambda>(c, t). \<not> list_ex P c) (text_nodes anc n)))
     = (if matches P n then [] else textContent (remove_from P n))"
proof (induction n arbitrary: anc)
  case (TextNode t) then show ?case by simp
next
  case (Element a cs)
  show ?case
  proof (cases "P a")
    case True
    then have "list_ex P (a # anc)" by simp
    then have "\<And>c. filter (\<lambda>(c, t). \<not> list_ex P c) (text_nodes (a # anc) c) = []"
      by (rule text_nodes_inside)
    with True show ?thesis by (simp add: filter_concat comp_def)
  next
    case False
    with Element.prems have na: "\<not> list_ex P (a # anc)" by simp
    have "concat (map snd (filter (\<lambda>(c, t). \<not> list_ex P c) (text_nodes anc (Element a cs))))
        = concat (map (\<lambda>c. concat (map snd (filter (\<lambda>(c, t). \<not> list_ex P c)
                                  (text_nodes (a # anc) c)))) cs)"
      by (simp add: filter_concat map_concat comp_def concat_concat_map_each)
    also have "\<dots> = concat (map (\<lambda>c. if matches P c then [] else textContent (remove_from P c)) cs)"
      using Element.IH [OF _ na] by (simp cong: map_cong)
    also have "\<dots> = concat (map (\<lambda>c. textContent (remove_from P c))
                              (filter (\<lambda>c. \<not> matches P c) cs))"
      by (rule concat_map_if)
    finally show ?thesis using False by (simp add: comp_def)
  qed
qed

lemma outside_text_remove_from:
  "\<not> matches P n \<Longrightarrow> textContent (remove_from P n) = outside_text P n"
  using text_nodes_outside [of P "[]" n] by (simp add: outside_text_def)

lemma located_inside:
  "list_ex P anc \<Longrightarrow> filter (\<lambda>(c, e). \<not> list_ex P c) (located_elements anc n) = []"
proof (induction n arbitrary: anc)
  case (Element a cs)
  then show ?case by (simp add: filter_concat comp_def)
next
  case (TextNode t) then show ?case by simp
qed

lemma located_outside:
  "\<not> list_ex P anc \<Longrightarrow>
   map (remove_from P) (map snd (filter (\<lambda>(c, e). \<not> list_ex P c) (located_elements anc n)))
     = (if matches P n then [] else elements_of (remove_from P n))"
proof (induction n arbitrary: anc)
  case (TextNode t) then show ?case by simp
next
  case (Element a cs)
  show ?case
  proof (cases "P a")
    case True
    then have "list_ex P (a # anc)" by simp
    then have "\<And>c. filter (\<lambda>(c, e). \<not> list_ex P c) (located_elements (a # anc) c) = []"
      by (rule located_inside)
    with True show ?thesis by (simp add: filter_concat comp_def)
  next
    case False
    with Element.prems have na: "\<not> list_ex P (a # anc)" by simp
    have "map (remove_from P) (map snd (filter (\<lambda>(c, e). \<not> list_ex P c)
             (concat (map (located_elements (a # anc)) cs))))
        = concat (map (\<lambda>c. map (remove_from P) (map snd (filter (\<lambda>(c, e). \<not> list_ex P c)
                                  (located_elements (a # anc) c)))) cs)"
      by (simp add: filter_concat map_concat comp_def)
    also have "\<dots> = concat (map (\<lambda>c. if matches P c then [] else elements_of (remove_from P c)) cs)"
      using Element.IH [OF _ na] by (simp cong: map_cong)
    also have "\<dots> = concat (map (\<lambda>c. elements_of (remove_from P c))
                              (filter (\<lambda>c. \<not> matches P c) cs))"
      by (rule concat_map_if)
    finally show ?thesis using False na by (simp add: comp_def)
  qed
qed

lemma elements_remove_all_outside:
  "elements (remove_all P ns) = map (remove_from P) (outside_elements P ns)"
proof -
  have "map (remove_from P) (outside_elements P ns)
      = concat (map (\<lambda>n. map (remove_from P) (map snd (filter (\<lambda>(c, e). \<not> list_ex P c)
                                  (located_elements [] n)))) ns)"
    by (simp add: outside_elements_def filter_concat map_concat comp_def)
  also have "\<dots> = concat (map (\<lambda>n. if matches P n then [] else elements_of (remove_from P n)) ns)"
    using located_outside [of P "[]"] by simp
  also have "\<dots> = concat (map (\<lambda>n. elements_of (remove_from P n))
                              (filter (\<lambda>n. \<not> matches P n) ns))"
    by (rule concat_map_if)
  finally show ?thesis by (simp add: elements_def remove_all_def comp_def)
qed

lemma located_self:
  "(c, e) \<in> set (located_elements anc n) \<Longrightarrow> \<exists>a cs rest. e = Element a cs \<and> c = a # rest"
  by (induction n arbitrary: anc) auto

lemma outside_elements_unmatched:
  "e \<in> set (outside_elements P ns) \<Longrightarrow> \<not> matches P e"
proof -
  assume "e \<in> set (outside_elements P ns)"
  then obtain c n where c: "(c, e) \<in> set (located_elements [] n)" and k: "\<not> list_ex P c"
    by (auto simp: outside_elements_def)
  from located_self [OF c] obtain a cs rest where "e = Element a cs" "c = a # rest" by blast
  with k show ?thesis by simp
qed

lemma find_map_matches:
  "find (matches Q) (map (remove_from P) xs) = map_option (remove_from P) (find (matches Q) xs)"
  by (induction xs) (simp_all add: matches_any_remove_from)

lemma querySelector_remove_all:
  "querySelector Q (remove_all P ns)
     = map_option (remove_from P) (find (matches Q) (outside_elements P ns))"
  by (simp add: querySelector_find elements_remove_all_outside find_map_matches)

lemma main_content_spec_root: "main_content doc = spec_root doc"
  unfolding main_content_def spec_root_def
  by (simp add: querySelector_find split: option.splits)

lemma length_filler: "length filler = 150"
  by (simp add: filler_def)

lemma cleanText_filler: "cleanText filler = filler"
  by (rule cleanText_plain) (simp add: filler_def is_space_def)

lemmas page_eval = extractContent_def fallbackExtraction_def main_content_def remove_all_def
  body_def by_tag_def by_class_def by_id_def by_role_def unwanted_def el_def no_article_def
  MIN_CONTENT_LENGTH_def Let_def js_def length_filler cleanText_filler

lemma fallback_page_hi: "fallbackExtraction (\<lambda>h u. page_hi) h u = js ''Hi''"
  by (simp add: page_eval page_hi_def clean_eval)

lemma fallback_page_main: "fallbackExtraction (\<lambda>h u. page_main) h u = filler"
  by (simp add: page_eval page_main_def)

lemma length_related_text: "length related_text = 157"
  by (simp add: related_text_def js_def length_filler)

lemma cleanText_related_text: "cleanText related_text = related_text"
  by (rule cleanText_plain) (simp add: related_text_def filler_def js_def is_space_def)

lemma fallback_page_buttons: "fallbackExtraction (\<lambda>h u. page_buttons) h u = js ''Hi''"
  by (simp add: page_eval page_buttons_def clean_eval)

lemma fallback_page_related: "fallbackExtraction (\<lambda>h u. page_related) h u = related_text"
  by (simp add: page_eval page_related_def cleanText_related_text)

lemma fallback_page_content_divs:
  "fallbackExtraction (\<lambda>h u. page_content_divs) h u = js ''by class''"
  by (simp add: page_eval page_content_divs_def clean_eval)


section \<open>Properties of the extraction call\<close>

text \<open>The two paths of \<open>extractContent\<close>, each followed by the length check.\<close>

lemma extractContent_cases:
  "extractContent parse reader convert url html =
     (case fst (reader (parse html url)) of
        Some a \<Rightarrow>
          if length (cleanText (convert (article_content a))) < 100
          then Inl (InsufficientContent (length (cleanText (convert (article_content a)))) 100)
          else Inr \<lparr>finalUrl = url, title = article_title a,
                    content = cleanText (convert (article_content a))\<rparr>
      | None \<Rightarrow>
          if length (fallbackExtraction parse html url) < 100
          then Inl (InsufficientContent (length (fallbackExtraction parse html url)) 100)
          else Inr \<lparr>finalUrl = url,
                    title = (if doc_title (snd (reader (parse html url))) \<noteq> []
                             then doc_title (snd (reader (parse html url))) else js ''Untitled''),
                    content = fallbackExtraction parse html url\<rparr>)"
  by (simp add: extractContent_def MIN_CONTENT_LENGTH_def Let_def split: prod.splits option.splits)


text \<open>
  On the fallback path the title of a successful result is the document's title, and
  \<open>Untitled\<close> when that is empty.
\<close>

lemma fallback_path_title:
  assumes "reader (parse html url) = (None, d)"
    and "extractContent parse reader convert url html = Inr r"
  shows "title r = (if doc_title d = [] then js ''Untitled'' else doc_title d)"
  using assms by (auto simp: extractContent_cases split: if_splits)

subsection \<open>The quality gate\<close>

text \<open>
  Claim C1: whichever path produced the final content string \<open>c\<close> (the cleaned Markdown
  of the article, or the cleaned text of the fallback), a successful result carries
  exactly \<open>c\<close> and \<open>c\<close> has at least 100 code units; and when \<open>c\<close> is shorter the call
  fails with the insufficient-content error carrying the measured length and the
  minimum, returning no result.
\<close>

theorem quality_gate:
  assumes "c = (case fst (reader (parse html url)) of
                  Some a \<Rightarrow> cleanText (convert (article_content a))
                | None \<Rightarrow> fallbackExtraction parse html url)"
  shows "(\<forall>r. extractContent parse reader convert url html = Inr r \<longrightarrow>
              content r = c \<and> 100 \<le> length (content r)) \<and>
         (length c < 100 \<longrightarrow>
            extractContent parse reader convert url html = Inl (InsufficientContent (length c) 100))"
  using assms by (auto simp: extractContent_cases split: option.splits)

theorem quality_gate_witness:
  "extractContent (\<lambda>h u. page_hi) no_article (\<lambda>h. h) (js ''https://x.test/a'')
       (js ''<body>Hi</body>'') = Inl (InsufficientContent 2 100)
   \<and> (\<exists>r. extractContent (\<lambda>h u. page_main) no_article (\<lambda>h. h) (js ''https://x.test/a'')
       (js ''<main>'' @ filler @ js ''</main>'') = Inr r \<and> content r = filler
       \<and> 100 \<le> length (content r))"
proof -
  let ?u = "js ''https://x.test/a''"
  let ?h = "js ''<main>'' @ filler @ js ''</main>''"
  have l: "length (js ''Hi'') = 2" by (simp add: js_def)
  have A: "extractContent (\<lambda>h u. page_hi) no_article (\<lambda>h. h) ?u (js ''<body>Hi</body>'')
             = Inl (InsufficientContent 2 100)"
    using quality_gate [where parse = "\<lambda>h u. page_hi" and reader = no_article
        and convert = "\<lambda>h. h" and url = ?u and html = "js ''<body>Hi</body>''"
        and c = "js ''Hi''"]
    by (simp add: no_article_def fallback_page_hi l)
  obtain r where r: "extractContent (\<lambda>h u. page_main) no_article (\<lambda>h. h) ?u ?h = Inr r"
    by (simp add: extractContent_cases no_article_def fallback_page_main length_filler)
  then have "content r = filler \<and> 100 \<le> length (content r)"
    using quality_gate [where parse = "\<lambda>h u. page_main" and reader = no_article
        and convert = "\<lambda>h. h" and url = ?u and html = ?h and c = filler]
    by (simp add: no_article_def fallback_page_main)
  with r A show ?thesis by blast
qed


subsection \<open>Selection of the main-content root\<close>

text \<open>
  Claim C6: after the unwanted elements are removed, the text that fallback extraction
  cleans is that of the first present among a \<open>main\<close> element, an \<open>article\<close> element, an
  element with \<open>role="main"\<close>, an element with class \<open>content\<close>, an element with id
  \<open>content\<close>, and last the document body; it is empty when none is present.
\<close>

theorem fallback_root_order:
  "fallbackExtraction parse html url =
     cleanText (case spec_root (remove_all unwanted (doc_children (parse html url))) of
                  Some e \<Rightarrow> textContent e
                | None \<Rightarrow> [])"
  by (simp add: fallbackExtraction_def main_content_spec_root)


theorem fallback_root_order_witness:
  "cleanText (case spec_root (remove_all unwanted (doc_children page_content_divs)) of
                Some e \<Rightarrow> textContent e
              | None \<Rightarrow> []) = js ''by class''"
  using fallback_root_order [where parse = "\<lambda>h u. page_content_divs"]
    fallback_page_content_divs
  by simp

text \<open>
  Within the fourth step the class is tried before the id: of an element with id
  \<open>content\<close> followed by one with class \<open>content\<close>, the second is extracted
  (\<open>fallback_page_content_divs\<close>).
\<close>

subsection \<open>Fallback extraction on a page with a main or article element\<close>

text \<open>
  Claim C5, as stated: on a document holding a \<open>main\<close> or \<open>article\<close> element with at
  least 100 characters of visible text, when the reader finds no article, fallback
  extraction succeeds and its text contains none of the text of the removed elements.
  Both parts fail. On \<open>page_buttons\<close> the \<open>article\<close> holds 150 characters and the
  \<open>main\<close> before it two: \<open>main\<close> is tried first and its text does not pass the gate.
  On \<open>page_related\<close> the call succeeds, and the returned text begins with \<open>Related\<close>,
  which is also the whole text of the removed \<open>aside\<close>.
\<close>

theorem fallback_fails_or_repeats_removed_text:
  "find (matches (by_tag ''article'')) (elements (doc_children page_buttons))
     = Some (el ''article'' [el ''button'' [TextNode filler]])
   \<and> length (textContent (el ''article'' [el ''button'' [TextNode filler]])) = 150
   \<and> extractContent (\<lambda>h u. page_buttons) no_article (\<lambda>h. h) (js ''https://x.test/a'')
        html_buttons = Inl (InsufficientContent 2 100)
   \<and> extractContent (\<lambda>h u. page_related) no_article (\<lambda>h. h) (js ''https://x.test/a'')
        html_related
      = Inr \<lparr>finalUrl = js ''https://x.test/a'', title = js ''T'', content = related_text\<rparr>
   \<and> matches unwanted (el ''aside'' [TextNode (js ''Related'')])
   \<and> related_text = textContent (el ''aside'' [TextNode (js ''Related'')]) @ filler"
proof -
  have 1: "find (matches (by_tag ''article'')) (elements (doc_children page_buttons))
     = Some (el ''article'' [el ''button'' [TextNode filler]])"
    by (simp add: page_buttons_def elements_def el_def by_tag_def js_def)
  have 2: "length (textContent (el ''article'' [el ''button'' [TextNode filler]])) = 150"
    by (simp add: el_def length_filler)
  have 3: "extractContent (\<lambda>h u. page_buttons) no_article (\<lambda>h. h) (js ''https://x.test/a'')
        html_buttons = Inl (InsufficientContent 2 100)"
    by (simp add: extractContent_cases no_article_def fallback_page_buttons) (simp add: js_def)
  have 4: "extractContent (\<lambda>h u. page_related) no_article (\<lambda>h. h) (js ''https://x.test/a'')
        html_related
      = Inr \<lparr>finalUrl = js ''https://x.test/a'', title = js ''T'', content = related_text\<rparr>"
    by (simp add: extractContent_cases no_article_def fallback_page_related length_related_text)
       (simp add: page_related_def js_def)
  have 5: "matches unwanted (el ''aside'' [TextNode (js ''Related'')])"
    by (simp add: el_def unwanted_def by_tag_def)
  have 6: "related_text = textContent (el ''aside'' [TextNode (js ''Related'')]) @ filler"
    by (simp add: el_def related_text_def)
  from 1 2 3 4 5 6 show ?thesis by blast
qed

text \<open>
  Claim C5, amended: when the reader finds no article and the first \<open>main\<close> element
  outside the removed elements (or, when there is none, the first such \<open>article\<close>
  element) has at least 100 code units of cleaned text outside the removed elements
  (script, style, nav, header, footer, aside, or class navigation, menu or sidebar), the
  call succeeds and returns exactly the cleaned concatenation of the text nodes of that
  element that lie outside every removed element: no text node of a removed element is
  part of the returned text.
\<close>

theorem fallback_succeeds_on_selected_root:
  assumes null: "reader (parse html url) = (None, d)"
    and root: "find (matches (by_tag ''main''))
                 (outside_elements unwanted (doc_children (parse html url))) = Some e
               \<or> (find (matches (by_tag ''main''))
                     (outside_elements unwanted (doc_children (parse html url))) = None
                  \<and> find (matches (by_tag ''article''))
                     (outside_elements unwanted (doc_children (parse html url))) = Some e)"
    and long: "100 \<le> length (cleanText (outside_text unwanted e))"
  shows "\<exists>t. extractContent parse reader convert url html
                = Inr \<lparr>finalUrl = url, title = t,
                       content = cleanText (outside_text unwanted e)\<rparr>"
proof -
  let ?D = "doc_children (parse html url)"
  from root have mc: "main_content (remove_all unwanted ?D) = Some (remove_from unwanted e)"
    by (auto simp: main_content_def querySelector_remove_all)
  from root have "e \<in> set (outside_elements unwanted ?D)"
    by (auto simp: find_Some_iff)
  then have "\<not> matches unwanted e" by (rule outside_elements_unmatched)
  then have "textContent (remove_from unwanted e) = outside_text unwanted e"
    by (rule outside_text_remove_from)
  with mc have f: "fallbackExtraction parse html url = cleanText (outside_text unwanted e)"
    by (simp add: fallbackExtraction_def)
  from null f long show ?thesis by (simp add: extractContent_cases)
qed

theorem fallback_succeeds_on_selected_root_witness:
  "extractContent (\<lambda>h u. page_related) no_article (\<lambda>h. h) (js ''https://x.test/a'')
        html_related
     = Inr \<lparr>finalUrl = js ''https://x.test/a'', title = js ''T'', content = related_text\<rparr>
   \<and> outside_text unwanted (el ''main'' [el ''button'' [TextNode related_text],
                                         el ''script'' [TextNode (js ''var a'')]]) = related_text
   \<and> textContent (el ''main'' [el ''button'' [TextNode related_text],
                               el ''script'' [TextNode (js ''var a'')]])
        = related_text @ js ''var a''"
proof -
  let ?u = "js ''https://x.test/a''"
  let ?e = "el ''main'' [el ''button'' [TextNode related_text],
                         el ''script'' [TextNode (js ''var a'')]]"
  have q: "find (matches (by_tag ''main''))
             (outside_elements unwanted (doc_children page_related)) = Some ?e"
    by (simp add: page_related_def outside_elements_def unwanted_def by_tag_def by_class_def
          el_def js_def)
  have o: "outside_text unwanted ?e = related_text"
    by (simp add: outside_text_def unwanted_def by_tag_def by_class_def el_def js_def)
  have l: "100 \<le> length (cleanText (outside_text unwanted ?e))"
    by (simp add: o cleanText_related_text length_related_text)
  have "\<exists>t. extractContent (\<lambda>h u. page_related) no_article (\<lambda>h. h) ?u html_related
                = Inr \<lparr>finalUrl = ?u, title = t, content = cleanText (outside_text unwanted ?e)\<rparr>"
    using fallback_succeeds_on_selected_root [where parse = "\<lambda>h u. page_related"
        and reader = no_article and convert = "\<lambda>h. h" and url = ?u and html = html_related
        and d = page_related and e = ?e] q l
    by (simp add: no_article_def)
  then obtain t where r: "extractContent (\<lambda>h u. page_related) no_article (\<lambda>h. h) ?u html_related
                = Inr \<lparr>finalUrl = ?u, title = t, content = related_text\<rparr>"
    by (auto simp: o cleanText_related_text)
  have "t = js ''T''"
    using fallback_path_title [where parse = "\<lambda>h u. page_related" and reader = no_article
        and convert = "\<lambda>h. h" and url = ?u and html = html_related and d = page_related, OF _ r]
    by (simp add: no_article_def page_related_def js_def)
  moreover have "textContent ?e = related_text @ js ''var a''" by (simp add: el_def)
  ultimately show ?thesis using r o by simp
qed


subsection \<open>The title\<close>

text \<open>
  Claim C7: when no title can be derived from the primary extractor or from the
  \<open>title\<close> element, the title of a successful result is exactly \<open>Untitled\<close>. This holds
  when the reader finds no article (\<open>fallback_path_title\<close>). It fails when the reader
  finds an article and derives the empty title for it, as on a page with neither a
  \<open>title\<close> element nor a heading: the primary path returns the empty title.
\<close>

theorem article_without_title_not_Untitled:
  "querySelector (by_tag ''title'') (doc_children page_untitled_article) = None
   \<and> doc_title page_untitled_article = []
   \<and> extractContent (\<lambda>h u. page_untitled_article)
        (\<lambda>d. (Some \<lparr>article_title = [],
                     article_content = js ''<article><p>'' @ filler @ js ''</p></article>''\<rparr>, d))
        (\<lambda>h. filler) (js ''https://x.test/a'') html_untitled_article
      = Inr \<lparr>finalUrl = js ''https://x.test/a'', title = [], content = filler\<rparr>
   \<and> ([] :: jsstring) \<noteq> js ''Untitled''"
  by (simp add: extractContent_cases cleanText_filler length_filler)
     (simp add: page_untitled_article_def el_def by_tag_def js_def)



text \<open>
  Claim C9: the title of a successful result is non-empty on both paths. The fallback
  path guards with \<open>Untitled\<close>; the primary path takes the article's title as it is, so
  a page without a title, for which the reader derives the empty title, succeeds with
  an empty title.
\<close>

theorem primary_path_empty_title:
  "extractContent (\<lambda>h u. page_untitled)
     (\<lambda>d. (Some \<lparr>article_title = [], article_content = js ''<p>'' @ filler @ js ''</p>''\<rparr>, d))
     (\<lambda>h. filler) (js ''https://x.test/a'') (js ''<p>'' @ filler @ js ''</p>'')
   = Inr \<lparr>finalUrl = js ''https://x.test/a'', title = [], content = filler\<rparr>"
  by (simp add: extractContent_cases cleanText_filler length_filler)


subsection \<open>Markdown on the primary path\<close>

text \<open>
  Whatever the converter returns, the content of a successful result holds no line
  feed: the cleaning pass has replaced each by a space.
\<close>

lemma extractContent_single_line:
  "extractContent parse reader convert url html = Inr r \<Longrightarrow> LF \<notin> set (content r)"
proof -
  assume a: "extractContent parse reader convert url html = Inr r"
  have "\<exists>s. content r = cleanText s"
    using a by (auto simp: extractContent_cases fallbackExtraction_def Let_def
                     split: option.splits if_splits)
  then obtain s where "content r = cleanText s" ..
  moreover have "LF \<notin> set (cleanText s)"
    using tidy_no_other_space[OF tidy_cleanText, of LF s] is_space_LF by fastforce
  ultimately show ?thesis by simp
qed


text \<open>
  Claim C8: a heading of the article is a line of the returned Markdown that begins with
  \<open>##\<close>, and a code block is a fenced block with its own delimiter lines. The returned
  content of this article is one line that begins with the paragraph; the heading and
  the fences are inside it.
\<close>

theorem primary_path_markdown_flattened:
  "extractContent (\<lambda>h u. page_empty)
     (\<lambda>d. (Some \<lparr>article_title = js ''T'',
                  article_content = js ''<p>Intro ...</p><h2>Section</h2><pre><code>code</code></pre>''\<rparr>, d))
     (\<lambda>h. markdown_example) (js ''https://x.test/a'') (js ''<html>...</html>'')
   = Inr \<lparr>finalUrl = js ''https://x.test/a'', title = js ''T'',
          content = js ''Intro paragraph of the article, long enough to pass the length gate of one hundred characters. ## Section ``` code ```''\<rparr>"
  by (simp add: extractContent_cases markdown_example_def clean_eval)


end
